theory Spec2Isabelle
  imports Complex_Main "HOL-Library.Char_ord" "HOL-Library.List_Lexorder" "HOL-Library.Multiset"
begin

section \<open>JavaScript values\<close>

text \<open>
  The player objects arrive as decoded JSON. The numeric fields that the code below reads
  hold a number, \<open>null\<close>, or are absent (reading them gives \<open>undefined\<close>). A number is
  a double, modelled by the rational it denotes: JSON cannot carry \<open>NaN\<close> or an
  infinity. Comparisons of doubles are comparisons of these rationals, and a sum of
  integer ranks is exact. The hue formula is not exact, and is evaluated with the rounding
  of IEEE 754 defined below.
\<close>

datatype jsval = Undefined | Null | Num rat

type_synonym js_object = "string \<rightharpoonup> jsval"

text \<open>\<open>obj[key]\<close>: an absent property reads as \<open>undefined\<close>.\<close>

definition js_get :: "js_object \<Rightarrow> string \<Rightarrow> jsval" where
  "js_get obj k = (case obj k of None \<Rightarrow> Undefined | Some v \<Rightarrow> v)"

text \<open>
  \<open>v || d\<close> for a numeric literal \<open>d\<close>: \<open>undefined\<close>, \<open>null\<close> and \<open>0\<close> are falsy and give
  \<open>d\<close>, every other number is kept.
\<close>

definition or_default :: "jsval \<Rightarrow> rat \<Rightarrow> rat" where
  "or_default v d = (case v of Num r \<Rightarrow> (if r = 0 then d else r) | _ \<Rightarrow> d)"

text \<open>\<open>s || d\<close> for a string field that may be absent: the empty string is falsy too.\<close>

definition or_str :: "string option \<Rightarrow> string \<Rightarrow> string" where
  "or_str s d = (case s of None \<Rightarrow> d | Some t \<Rightarrow> (if t = [] then d else t))"

text \<open>\<open>ToNumber\<close>; \<open>None\<close> stands for \<open>NaN\<close>.\<close>

definition to_number :: "jsval \<Rightarrow> rat option" where
  "to_number v = (case v of Undefined \<Rightarrow> None | Null \<Rightarrow> Some 0 | Num r \<Rightarrow> Some r)"

text \<open>\<open>a < b\<close> and \<open>a > b\<close> on such values: false as soon as one side is \<open>NaN\<close>.\<close>

definition js_lt :: "jsval \<Rightarrow> jsval \<Rightarrow> bool" where
  "js_lt a b = (case (to_number a, to_number b) of (Some x, Some y) \<Rightarrow> x < y | _ \<Rightarrow> False)"

definition js_gt :: "jsval \<Rightarrow> jsval \<Rightarrow> bool" where
  "js_gt a b = js_lt b a"

section \<open>Player records and the page state\<close>

text \<open>
  A player object. \<open>positions\<close> is the array of position tags and \<open>weekly_projections\<close> an
  object; both are dereferenced without a guard everywhere in the code, so they are always
  present. \<open>per_game_projections\<close> is guarded by \<open>if (projections)\<close> and may be missing.
  \<open>cat_coverage_rank\<close> is not part of the fetched data: it reads \<open>undefined\<close> until
  \<open>populateTableBody\<close> assigns it.
\<close>

record player =
  name :: "string option"
  team :: "string option"
  availability :: "string option"
  positions :: "string list"
  games_this_week :: jsval
  weekly_projections :: js_object
  per_game_projections :: "js_object option"
  cat_coverage_rank :: jsval

datatype direction = Asc | Desc

record sort_state =
  key :: string
  direction :: direction

section \<open>Double-precision arithmetic\<close>

text \<open>
  The arithmetic operators of the language work on IEEE 754 binary64 numbers: the result
  of an operation is the exact result rounded to the nearest double, ties going to the
  even significand. A finite double is an integer multiple of a power of two, the
  quantum, which for a value in \<open>[2^e, 2^(e+1))\<close> is \<open>2^(e - 52)\<close> and never less than
  \<open>2^(-1074)\<close>. Overflow to an infinity is not modelled; the hue computation below stays
  under \<open>2^8\<close>.
\<close>

text \<open>The number of binary digits of a positive integer.\<close>

function bit_length :: "int \<Rightarrow> nat" where
  "bit_length n = (if n \<le> 0 then 0 else Suc (bit_length (n div 2)))"
  by auto
termination
  by (relation "measure nat") auto

declare bit_length.simps [simp del]

definition pow2 :: "int \<Rightarrow> rat" where
  "pow2 e = (if 0 \<le> e then 2 ^ nat e else 1 / 2 ^ nat (- e))"

text \<open>For positive \<open>x\<close>, the exponent \<open>e\<close> with \<open>2^e \<le> x < 2^(e+1)\<close>.\<close>

definition floor_log2 :: "rat \<Rightarrow> int" where
  "floor_log2 x =
     (if 1 \<le> x then int (bit_length \<lfloor>x\<rfloor>) - 1
      else (let k = int (bit_length \<lfloor>1 / x\<rfloor>) - 1
            in if x * pow2 k = 1 then - k else - (k + 1)))"

text \<open>Rounding to the nearest integer, a tie going to the even one.\<close>

definition round_half_even :: "rat \<Rightarrow> int" where
  "round_half_even y =
     (let f = \<lfloor>y\<rfloor>; d = y - of_int f
      in if d < 1 / 2 then f else if 1 / 2 < d then f + 1 else if even f then f else f + 1)"

definition quantum :: "rat \<Rightarrow> rat" where
  "quantum x = pow2 (max (floor_log2 \<bar>x\<bar> - 52) (- 1074))"

definition round_double :: "rat \<Rightarrow> rat" where
  "round_double x =
     (if x = 0 then 0 else of_int (round_half_even (x / quantum x)) * quantum x)"

text \<open>The operators \<open>/\<close>, \<open>*\<close> and \<open>-\<close> on doubles.\<close>

definition ddiv :: "rat \<Rightarrow> rat \<Rightarrow> rat" where
  "ddiv a b = round_double (a / b)"

definition dmul :: "rat \<Rightarrow> rat \<Rightarrow> rat" where
  "dmul a b = round_double (a * b)"

definition dsub :: "rat \<Rightarrow> rat \<Rightarrow> rat" where
  "dsub a b = round_double (a - b)"

section \<open>Heatmap colour (\<open>getRankColor\<close>)\<close>

text \<open>
  The function returns either the empty string or the attribute
  \<open>style="background-color: hsl(<hue>, 70%, 85%); color: #333;"\<close>. The model keeps the
  parts of that template: the hue as the double that the template prints, saturation and
  lightness in percent, and the foreground. The hue is
  \<open>120 - ((rank - 1) * (120 / 19))\<close> with each of its four operations rounded. Both
  copies of the function (players page and \<open>api.js\<close>) have the same body.
\<close>

datatype style =
  No_style
  | Hsl_style (style_hue: rat) (style_saturation: nat) (style_lightness: nat)
      (style_color: string)

definition getRankColor :: "jsval \<Rightarrow> style" where
  "getRankColor rank =
     (if rank = Null \<or> rank = Undefined \<or> js_lt rank (Num 1) \<or> js_gt rank (Num 20)
      then No_style
      else (case rank of
              Num r \<Rightarrow>
                (let hue = dsub 120 (dmul (dsub r 1) (ddiv 120 19))
                 in Hsl_style hue 70 85 ''#333'')
            | _ \<Rightarrow> No_style))"

section \<open>Coverage rank (the \<open>totalRank\<close> of \<open>populateTableBody\<close>)\<close>

definition goalie_ranksToSum :: "string list" where
  "goalie_ranksToSum = [''w_cat_rank'', ''so_cat_rank'', ''svpct_cat_rank'', ''gaa_cat_rank'']"

definition skater_ranksToSum :: "string list" where
  "skater_ranksToSum =
     [''g_cat_rank'', ''a_cat_rank'', ''pts_cat_rank'', ''ppp_cat_rank'',
      ''hit_cat_rank'', ''blk_cat_rank'', ''sog_cat_rank'']"

text \<open>
  \<open>ranksToSum.forEach(rankStat => { totalRank += projections[rankStat] || 0; })\<close>,
  starting from \<open>totalRank\<close>.
\<close>

definition sum_ranks :: "js_object \<Rightarrow> string list \<Rightarrow> rat \<Rightarrow> rat" where
  "sum_ranks projections ranksToSum totalRank =
     fold (\<lambda>rankStat total. total + or_default (js_get projections rankStat) 0) ranksToSum totalRank"

definition totalRank :: "player \<Rightarrow> rat" where
  "totalRank p =
     (case per_game_projections p of
        None \<Rightarrow> 0
      | Some projections \<Rightarrow>
          (if ''G'' \<in> set (positions p)
           then sum_ranks projections goalie_ranksToSum 0
           else sum_ranks projections skater_ranksToSum 0))"

section \<open>Sort state (\<open>addTableSorting\<close>, click handler)\<close>

definition defaultAsc :: "string list" where
  "defaultAsc =
     [''cat_coverage_rank'', ''name'', ''team'', ''positions'', ''availability'', ''gaa'']"

definition toggleSort :: "sort_state \<Rightarrow> string \<Rightarrow> sort_state" where
  "toggleSort currentSort sortKey =
     (let dir = (if key currentSort = sortKey
                 then (if direction currentSort = Asc then Desc else Asc)
                 else (if sortKey \<in> set defaultAsc then Asc else Desc))
      in \<lparr>key = sortKey, direction = dir\<rparr>)"

section \<open>The sort comparator (\<open>sortAndRerenderTable\<close>)\<close>

definition inverseSortStats :: "string list" where
  "inverseSortStats = [''gaa'']"

text \<open>\<open>Array.prototype.join\<close> on an array of strings.\<close>

fun js_join :: "string \<Rightarrow> string list \<Rightarrow> string" where
  "js_join sep [] = []"
| "js_join sep [x] = x"
| "js_join sep (x # y # ys) = x @ sep @ js_join sep (y # ys)"

text \<open>
  \<open>a[key] || ''\<close> for the four string keys. An array is truthy, and the relational
  operators compare it through its \<open>toString\<close>, the comma-joined elements.
\<close>

definition string_val :: "player \<Rightarrow> string \<Rightarrow> string" where
  "string_val a k =
     (if k = ''name'' then or_str (name a) []
      else if k = ''team'' then or_str (team a) []
      else if k = ''availability'' then or_str (availability a) []
      else js_join '','' (positions a))"

text \<open>\<open>a.weekly_projections[key] !== undefined ? a.weekly_projections[key] : -1\<close>\<close>

definition stat_val :: "player \<Rightarrow> string \<Rightarrow> jsval" where
  "stat_val a k =
     (if js_get (weekly_projections a) k \<noteq> Undefined
      then js_get (weekly_projections a) k else Num (- 1))"

text \<open>\<open>a.cat_coverage_rank || 999\<close>\<close>

definition coverage_val :: "player \<Rightarrow> jsval" where
  "coverage_val a = Num (or_default (cat_coverage_rank a) 999)"

text \<open>
  The block \<open>let comparison = 0; if (valA > valB) {...} else if (valA < valB) {...}\<close>,
  once for the numeric branches and once for the string branch (strings compare
  lexicographically by character code).
\<close>

definition comparison_num :: "jsval \<Rightarrow> jsval \<Rightarrow> int" where
  "comparison_num valA valB = (if js_gt valA valB then 1 else if js_lt valA valB then - 1 else 0)"

definition comparison_str :: "string \<Rightarrow> string \<Rightarrow> int" where
  "comparison_str valA valB = (if valA > valB then 1 else if valA < valB then - 1 else 0)"

definition comparator :: "string \<Rightarrow> direction \<Rightarrow> player \<Rightarrow> player \<Rightarrow> int" where
  "comparator k d a b =
     (let isNumeric = (k \<notin> set [''name'', ''team'', ''availability'', ''positions'']);
          comparison =
            (if k = ''cat_coverage_rank'' then comparison_num (coverage_val a) (coverage_val b)
             else if isNumeric then comparison_num (stat_val a k) (stat_val b k)
             else comparison_str (string_val a k) (string_val b k));
          comparison' =
            (if isNumeric \<and> k \<in> set inverseSortStats then - comparison else comparison)
      in if d = Asc then comparison' else - comparison')"

text \<open>
  \<open>Array.prototype.sort\<close> belongs to the language, not to the repository. ECMAScript
  (since 2019) requires it to be stable, and for a consistent comparator the stable sorted
  arrangement of an array is unique (\<open>js_sort_unique\<close> below); it is modelled by
  insertion from the right, which computes that arrangement.
\<close>

fun insert_by :: "('a \<Rightarrow> 'a \<Rightarrow> int) \<Rightarrow> 'a \<Rightarrow> 'a list \<Rightarrow> 'a list" where
  "insert_by cmp x [] = [x]"
| "insert_by cmp x (y # ys) = (if cmp x y \<le> 0 then x # y # ys else y # insert_by cmp x ys)"

definition js_sort :: "('a \<Rightarrow> 'a \<Rightarrow> int) \<Rightarrow> 'a list \<Rightarrow> 'a list" where
  "js_sort cmp xs = foldr (insert_by cmp) xs []"

section \<open>Rendering (\<open>populateTableBody\<close>) and the page\<close>

definition STATS_TO_DISPLAY :: "string list" where
  "STATS_TO_DISPLAY =
     [''g'', ''a'', ''pts'', ''ppp'', ''sog'', ''hit'', ''blk'', ''w'', ''so'', ''svpct'', ''gaa'']"

definition STATS_FOR_HEATMAP :: "string list" where
  "STATS_FOR_HEATMAP = [''g'', ''a'', ''pts'', ''ppp'', ''sog'', ''hit'', ''blk'']"

text \<open>One \<open><td>\<close> of the statistics columns: its colour and its value.\<close>

definition stat_cell :: "player \<Rightarrow> string \<Rightarrow> style \<times> jsval" where
  "stat_cell p stat =
     (let colorStyle =
            (if stat \<in> set STATS_FOR_HEATMAP
             then getRankColor (case per_game_projections p of
                                  Some projections \<Rightarrow> js_get projections (stat @ ''_cat_rank'')
                                | None \<Rightarrow> Null)
             else No_style);
          v = (if js_get (weekly_projections p) stat \<noteq> Undefined
               then js_get (weekly_projections p) stat else Num 0)
      in (colorStyle, v))"

record table_row =
  cell_name :: "string option"
  cell_team :: string
  cell_availability :: string
  cell_positions :: string
  cell_games :: jsval
  cell_total_rank :: rat
  cell_stats :: "(style \<times> jsval) list"

definition render_row :: "player \<Rightarrow> table_row" where
  "render_row p =
     \<lparr>cell_name = name p,
      cell_team = or_str (team p) ''N/A'',
      cell_availability = or_str (availability p) ''Rostered'',
      cell_positions = js_join '','' (positions p),
      cell_games = games_this_week p,
      cell_total_rank = totalRank p,
      cell_stats = map (stat_cell p) STATS_TO_DISPLAY\<rparr>"

text \<open>\<open>player.cat_coverage_rank = totalRank\<close>: the player object itself is updated.\<close>

definition assign_rank :: "player \<Rightarrow> player" where
  "assign_rank p = p\<lparr>cat_coverage_rank := Num (totalRank p)\<rparr>"

datatype tbody = No_players_found | Rows "table_row list"

text \<open>
  The function writes the table body and, through \<open>assign_rank\<close>, the objects of the array
  it was given; it returns early, touching nothing, on an empty array.
\<close>

definition populateTableBody :: "player list \<Rightarrow> player list \<times> tbody" where
  "populateTableBody players =
     (if players = [] then (players, No_players_found)
      else (map assign_rank players, Rows (map render_row players)))"

record page =
  allAvailablePlayersData :: "player list"
  currentSort :: sort_state
  availableTable :: tbody

definition sortAndRerenderTable :: "page \<Rightarrow> sort_state \<Rightarrow> page" where
  "sortAndRerenderTable pg cfg =
     (let sorted = js_sort (comparator (key cfg) (direction cfg)) (allAvailablePlayersData pg);
          (players, body) = populateTableBody sorted
      in pg\<lparr>allAvailablePlayersData := players, availableTable := body\<rparr>)"

text \<open>The click listener that \<open>addTableSorting\<close> installs on a header cell.\<close>

definition header_click :: "page \<Rightarrow> string \<Rightarrow> page" where
  "header_click pg sortKey =
     (let cfg = toggleSort (currentSort pg) sortKey
      in sortAndRerenderTable (pg\<lparr>currentSort := cfg\<rparr>) cfg)"

text \<open>
  The page as the script starts it, and \<open>fetchAndDisplayData\<close> from the point where the
  response has been decoded: the array is stored, the sortable table is created over an
  empty array, and \<open>addTableSorting\<close> runs the initial sort. (The roster table, which is
  not sortable, is left out.)
\<close>

definition initial_page :: page where
  "initial_page =
     \<lparr>allAvailablePlayersData = [],
      currentSort = \<lparr>key = ''cat_coverage_rank'', direction = Asc\<rparr>,
      availableTable = No_players_found\<rparr>"

definition fetchAndDisplayData :: "page \<Rightarrow> player list \<Rightarrow> page" where
  "fetchAndDisplayData pg available_players =
     (let pg1 = pg\<lparr>allAvailablePlayersData := available_players\<rparr>;
          pg2 = pg1\<lparr>availableTable := snd (populateTableBody [])\<rparr>
      in sortAndRerenderTable pg2 (currentSort pg2))"

section \<open>Back-to-back days (\<open>formatBackToBackDays\<close>)\<close>

text \<open>\<open>dayString.split(', ')\<close>, with the piece read so far kept reversed.\<close>

fun split_days :: "string \<Rightarrow> string \<Rightarrow> string list" where
  "split_days acc [] = [rev acc]"
| "split_days acc [c] = [rev (c # acc)]"
| "split_days acc (c # d # cs) =
     (if c = CHR '','' \<and> d = CHR '' '' then rev acc # split_days [] cs
      else split_days (c # acc) (d # cs))"

definition dayOrder :: "string list" where
  "dayOrder = [''Mon'', ''Tue'', ''Wed'', ''Thu'', ''Fri'', ''Sat'', ''Sun'']"

text \<open>\<open>Array.prototype.indexOf\<close>: the first position of the element, or \<open>-1\<close>.\<close>

fun indexOf :: "'a list \<Rightarrow> 'a \<Rightarrow> int" where
  "indexOf [] x = - 1"
| "indexOf (y # ys) x = (if y = x then 0 else (let i = indexOf ys x in if i < 0 then - 1 else i + 1))"

definition isB2B :: "string list \<Rightarrow> string \<Rightarrow> bool" where
  "isB2B days day =
     (let dayIndex = indexOf dayOrder day;
          prevDay = (if dayIndex > 0 then Some (dayOrder ! nat (dayIndex - 1)) else None);
          nextDay = (if dayIndex < 6 then Some (dayOrder ! nat (dayIndex + 1)) else None)
      in (case prevDay of Some d \<Rightarrow> d \<in> set days | None \<Rightarrow> False)
         \<or> (case nextDay of Some d \<Rightarrow> d \<in> set days | None \<Rightarrow> False))"

definition format_day :: "string list \<Rightarrow> string \<Rightarrow> string" where
  "format_day days day = (if isB2B days day then ''<b>'' @ day @ ''</b>'' else day)"

text \<open>The argument is \<open>None\<close> when the field is missing or \<open>null\<close>.\<close>

definition formatBackToBackDays :: "string option \<Rightarrow> string" where
  "formatBackToBackDays dayString =
     (case dayString of
        None \<Rightarrow> []
      | Some s \<Rightarrow>
          (if s = [] then []
           else (let days = split_days [] s
                 in if length days < 2 then s
                    else js_join '', '' (map (format_day days) days))))"

section \<open>Notions used to state the properties of the comparator\<close>

text \<open>
  The ordinary numeric comparison of two values under a direction: the three-way
  comparison, negated for descending.
\<close>

definition directed_comparison :: "direction \<Rightarrow> jsval \<Rightarrow> jsval \<Rightarrow> int" where
  "directed_comparison d valA valB =
     (if d = Asc then comparison_num valA valB else - comparison_num valA valB)"

text \<open>
  The comparator is a signed three-way comparison of one key per row: a number for the
  numeric sort keys, a string for the other four.
\<close>

definition cmp3 :: "'a::linorder \<Rightarrow> 'a \<Rightarrow> int" where
  "cmp3 x y = (if x > y then 1 else if x < y then - 1 else 0)"

definition num_of :: "jsval \<Rightarrow> rat" where
  "num_of v = (case to_number v of Some x \<Rightarrow> x | None \<Rightarrow> 0)"

definition num_key :: "string \<Rightarrow> player \<Rightarrow> rat" where
  "num_key k a =
     (if k = ''cat_coverage_rank'' then or_default (cat_coverage_rank a) 999
      else num_of (stat_val a k))"

definition sign_of :: "string \<Rightarrow> direction \<Rightarrow> int" where
  "sign_of k d = (if d = Asc then 1 else - 1) * (if k = ''gaa'' then - 1 else 1)"

section \<open>What the specification says about back-to-back days\<close>

text \<open>
  Following the specification's words: two days are adjacent when they are consecutive
  in the canonical order Mon, ..., Sun (there is no pair (Sun, Mon)), and a day is
  emphasized when some day of the input is adjacent to it.
\<close>

definition spec_adjacent :: "string \<Rightarrow> string \<Rightarrow> bool" where
  "spec_adjacent d e =
     ((d, e) \<in> set (zip dayOrder (tl dayOrder)) \<or> (e, d) \<in> set (zip dayOrder (tl dayOrder)))"

definition spec_emphasized :: "string list \<Rightarrow> string \<Rightarrow> bool" where
  "spec_emphasized days d = list_ex (spec_adjacent d) days"

section \<open>Example data\<close>

definition blank_player :: player where
  "blank_player =
     \<lparr>name = None, team = None, availability = None, positions = [],
      games_this_week = Undefined, weekly_projections = Map.empty,
      per_game_projections = None, cat_coverage_rank = Undefined\<rparr>"

text \<open>A goalie whose projections also carry two skater ranks.\<close>

definition goalie_example :: player where
  "goalie_example =
     blank_player\<lparr>name := Some ''Goalie'', positions := [''G''],
       weekly_projections := map_of [(''w'', Num 2), (''gaa'', Num (5 / 2))],
       per_game_projections := Some (map_of
         [(''w_cat_rank'', Num 3), (''so_cat_rank'', Num 5), (''svpct_cat_rank'', Num 2),
          (''gaa_cat_rank'', Num 1), (''g_cat_rank'', Num 7), (''pts_cat_rank'', Num 4)])\<rparr>"

text \<open>A second goalie, with fewer wins and a higher goals-against average.\<close>

definition goalie_two :: player where
  "goalie_two =
     blank_player\<lparr>name := Some ''Goalie2'', positions := [''G''],
       weekly_projections := map_of [(''w'', Num 1), (''gaa'', Num 3)]\<rparr>"

text \<open>Two skaters with coverage ranks 20 and 5, and one without per-game projections.\<close>

definition skater_A :: player where
  "skater_A =
     blank_player\<lparr>name := Some ''A'', positions := [''C''], games_this_week := Num 4,
       weekly_projections := map_of [(''pts'', Num 3)],
       per_game_projections := Some (map_of [(''g_cat_rank'', Num 12), (''a_cat_rank'', Num 8)])\<rparr>"

definition skater_B :: player where
  "skater_B =
     blank_player\<lparr>name := Some ''B'', positions := [''LW'', ''RW''], games_this_week := Num 2,
       weekly_projections := map_of [(''pts'', Num 6), (''gaa'', Num 2)],
       per_game_projections := Some (map_of [(''g_cat_rank'', Num 2), (''a_cat_rank'', Num 3)])\<rparr>"

definition skater_Z :: player where
  "skater_Z = blank_player\<lparr>name := Some ''Z'', positions := [''D''], games_this_week := Num 3\<rparr>"

section \<open>Coverage rank\<close>

lemma sum_ranks_sum_list:
  "sum_ranks m ks t = t + sum_list (map (\<lambda>k. or_default (js_get m k) 0) ks)"
  unfolding sum_ranks_def by (induction ks arbitrary: t) simp_all

text \<open>
  Claim C1. The coverage rank that \<open>populateTableBody\<close> computes for a player (the
  specification's \<open>computeCoverageRank\<close>) is 0 without per-game projections and otherwise
  the sum of \<open>projections[stat + "_cat_rank"] || 0\<close> over the goalie statistics w, so,
  svpct, gaa when the positions contain \<open>G\<close>, and over the skater statistics g, a, pts, ppp,
  hit, blk, sog when they do not. An absent entry contributes 0. The function is total:
  every property it reads is either guarded or defaulted. A goalie with ranks 3, 5, 2 and 1
  for w, so, svpct and gaa gets 11, whatever else the projections hold.
\<close>

theorem totalRank_coverage:
  "totalRank p =
     (case per_game_projections p of
        None \<Rightarrow> 0
      | Some m \<Rightarrow>
          sum_list (map (\<lambda>stat. or_default (js_get m (stat @ ''_cat_rank'')) 0)
            (if ''G'' \<in> set (positions p) then [''w'', ''so'', ''svpct'', ''gaa'']
             else [''g'', ''a'', ''pts'', ''ppp'', ''hit'', ''blk'', ''sog''])))
   \<and> (m k = None \<longrightarrow> or_default (js_get m k) 0 = 0)
   \<and> (''G'' \<in> set (positions p) \<and> per_game_projections p = Some m
        \<and> m ''w_cat_rank'' = Some (Num 3) \<and> m ''so_cat_rank'' = Some (Num 5)
        \<and> m ''svpct_cat_rank'' = Some (Num 2) \<and> m ''gaa_cat_rank'' = Some (Num 1)
      \<longrightarrow> totalRank p = 11)"
proof (intro conjI impI)
  show "totalRank p =
     (case per_game_projections p of
        None \<Rightarrow> 0
      | Some m \<Rightarrow>
          sum_list (map (\<lambda>stat. or_default (js_get m (stat @ ''_cat_rank'')) 0)
            (if ''G'' \<in> set (positions p) then [''w'', ''so'', ''svpct'', ''gaa'']
             else [''g'', ''a'', ''pts'', ''ppp'', ''hit'', ''blk'', ''sog''])))"
    by (simp add: totalRank_def sum_ranks_sum_list goalie_ranksToSum_def skater_ranksToSum_def
        split: option.split)
next
  assume "m k = None"
  then show "or_default (js_get m k) 0 = 0"
    by (simp add: js_get_def or_default_def)
next
  assume "''G'' \<in> set (positions p) \<and> per_game_projections p = Some m
        \<and> m ''w_cat_rank'' = Some (Num 3) \<and> m ''so_cat_rank'' = Some (Num 5)
        \<and> m ''svpct_cat_rank'' = Some (Num 2) \<and> m ''gaa_cat_rank'' = Some (Num 1)"
  then show "totalRank p = 11"
    by (simp add: totalRank_def sum_ranks_sum_list goalie_ranksToSum_def js_get_def
        or_default_def)
qed

theorem totalRank_coverage_witness:
  "totalRank goalie_example = 11"
  using totalRank_coverage [of goalie_example
      "map_of [(''w_cat_rank'', Num 3), (''so_cat_rank'', Num 5), (''svpct_cat_rank'', Num 2),
          (''gaa_cat_rank'', Num 1), (''g_cat_rank'', Num 7), (''pts_cat_rank'', Num 4)]"
      "''hit_cat_rank''"]
  by (simp add: goalie_example_def blank_player_def)

section \<open>Sort state\<close>

text \<open>
  Claim C4. A click on a header adopts the clicked key. When it is the current key the
  direction flips; otherwise the direction is ascending for cat_coverage_rank, name, team,
  positions, availability and gaa, and descending for every other key. Clicking pts from
  (name, asc) gives (pts, desc), and clicking pts again gives (pts, asc).
\<close>

theorem toggleSort_direction:
  "toggleSort s k =
     \<lparr>key = k,
      direction =
        (if k = key s then (if direction s = Asc then Desc else Asc)
         else if k \<in> {''cat_coverage_rank'', ''name'', ''team'', ''positions'',
                       ''availability'', ''gaa''} then Asc
         else Desc)\<rparr>
   \<and> toggleSort \<lparr>key = ''name'', direction = Asc\<rparr> ''pts'' = \<lparr>key = ''pts'', direction = Desc\<rparr>
   \<and> toggleSort (toggleSort \<lparr>key = ''name'', direction = Asc\<rparr> ''pts'') ''pts''
       = \<lparr>key = ''pts'', direction = Asc\<rparr>"
  by (auto simp add: toggleSort_def defaultAsc_def)

text \<open>The click listener changes the sort state by \<open>toggleSort\<close>.\<close>

lemma header_click_sort_state:
  "currentSort (header_click pg k) = toggleSort (currentSort pg) k"
  by (simp add: header_click_def sortAndRerenderTable_def Let_def split: prod.split)

section \<open>The rounding model\<close>

text \<open>
  The exponent found by \<open>floor_log2\<close> is the right one, and \<open>round_double\<close> returns a
  multiple of the quantum at distance at most half a quantum from its argument.
\<close>

lemma bit_length_bounds:
  "0 < n \<Longrightarrow> 2 ^ (bit_length n - 1) \<le> n \<and> n < 2 ^ bit_length n"
proof (induction n rule: bit_length.induct)
  case (1 n)
  show ?case
  proof (cases "n = 1")
    case True
    then show ?thesis by (simp add: bit_length.simps [of 1] bit_length.simps [of 0])
  next
    case False
    with 1 have pos: "0 < n div 2" by simp
    from 1 pos have ih: "2 ^ (bit_length (n div 2) - 1) \<le> n div 2 \<and> n div 2 < 2 ^ bit_length (n div 2)"
      by simp
    have bl: "bit_length n = Suc (bit_length (n div 2))"
      using 1 by (simp add: bit_length.simps [of n])
    have nz: "bit_length (n div 2) \<noteq> 0"
      using pos by (simp add: bit_length.simps [of "n div 2"])
    then obtain m where m: "bit_length (n div 2) = Suc m"
      by (cases "bit_length (n div 2)") auto
    from ih m have "2 * 2 ^ m \<le> n" and "n < 2 * 2 ^ Suc m"
      by auto
    with bl m show ?thesis by simp
  qed
qed

lemma pow2_pos: "0 < pow2 e"
  by (simp add: pow2_def)

lemma pow2_power_int: "pow2 e = power_int 2 e"
  by (simp add: pow2_def power_int_def inverse_eq_divide power_divide)

lemma pow2_Suc: "pow2 (e + 1) = 2 * pow2 e"
  by (simp add: pow2_power_int power_int_add)

lemma pow2_of_nat: "pow2 (int m) = 2 ^ m"
  by (simp add: pow2_def)

lemma pow2_neg_nat: "pow2 (- int m) = 1 / 2 ^ m"
  by (cases "m = 0") (simp_all add: pow2_def)

lemma floor_bits:
  assumes "1 \<le> (y::rat)"
  shows "2 ^ (bit_length \<lfloor>y\<rfloor> - 1) \<le> y \<and> y < 2 ^ bit_length \<lfloor>y\<rfloor> \<and> 0 < bit_length \<lfloor>y\<rfloor>"
proof -
  let ?n = "\<lfloor>y\<rfloor>"
  from assms have pos: "0 < ?n" by simp
  from bit_length_bounds [OF pos]
  have lo: "(2::int) ^ (bit_length ?n - 1) \<le> ?n" and hi: "?n < 2 ^ bit_length ?n" by simp_all
  have "(of_int ((2::int) ^ (bit_length ?n - 1)) :: rat) \<le> of_int ?n"
    using lo by (simp only: of_int_le_iff)
  also have "\<dots> \<le> y" by simp
  finally have l: "2 ^ (bit_length ?n - 1) \<le> y" by simp
  from hi have "?n + 1 \<le> 2 ^ bit_length ?n" by simp
  then have "(of_int (?n + 1) :: rat) \<le> of_int (2 ^ bit_length ?n)"
    by (simp only: of_int_le_iff)
  moreover have "y < of_int (?n + 1)" by linarith
  ultimately have h: "y < 2 ^ bit_length ?n" by simp
  have "0 < bit_length ?n"
    using pos by (simp add: bit_length.simps [of ?n])
  with l h show ?thesis by simp
qed

lemma floor_log2_bounds:
  assumes "0 < x"
  shows "pow2 (floor_log2 x) \<le> x \<and> x < pow2 (floor_log2 x + 1)"
proof (cases "1 \<le> x")
  case True
  from floor_bits [OF True] obtain m where m: "bit_length \<lfloor>x\<rfloor> = Suc m"
    and "2 ^ m \<le> x" and "x < 2 ^ Suc m"
    by (cases "bit_length \<lfloor>x\<rfloor>") auto
  moreover have "floor_log2 x = int m"
    using True m by (simp add: floor_log2_def)
  ultimately show ?thesis
    by (simp add: pow2_Suc pow2_of_nat)
next
  case False
  with assms have y: "1 \<le> 1 / x" by simp
  from floor_bits [OF y] obtain m where m: "bit_length \<lfloor>1 / x\<rfloor> = Suc m"
    and lo: "2 ^ m \<le> 1 / x" and hi: "1 / x < 2 ^ Suc m"
    by (cases "bit_length \<lfloor>1 / x\<rfloor>") auto
  from lo assms have xle: "x * 2 ^ m \<le> 1"
    by (simp add: field_simps)
  from hi assms have xgt: "1 < x * (2 * 2 ^ m)"
    by (simp add: field_simps)
  show ?thesis
  proof (cases "x * 2 ^ m = 1")
    case True
    then have fl: "floor_log2 x = - int m"
      using False m by (simp add: floor_log2_def pow2_of_nat)
    from True have "x = 1 / 2 ^ m" by (simp add: field_simps)
    then have xp: "x = pow2 (- int m)" by (simp add: pow2_neg_nat)
    have "pow2 (- int m + 1) = 2 * pow2 (- int m)" by (rule pow2_Suc)
    with xp assms have "x < pow2 (- int m + 1)" by simp
    with xp show ?thesis unfolding fl by simp
  next
    case neq: False
    then have fl: "floor_log2 x = - (int m + 1)"
      using False m by (simp add: floor_log2_def pow2_of_nat)
    have p1: "pow2 (- (int m + 1)) = 1 / (2 * 2 ^ m)"
    proof -
      have "- (int m + 1) = - int (Suc m)" by simp
      then have "pow2 (- (int m + 1)) = pow2 (- int (Suc m))" by (simp only:)
      also have "\<dots> = 1 / 2 ^ Suc m" by (rule pow2_neg_nat)
      finally show ?thesis by simp
    qed
    have p2: "pow2 (- (int m + 1) + 1) = 1 / 2 ^ m"
      using pow2_neg_nat [of m] by simp
    from xle neq have "x * 2 ^ m < 1" by simp
    then have a: "x < 1 / 2 ^ m" by (simp add: field_simps)
    from xgt have b: "1 / (2 * 2 ^ m) \<le> x" by (simp add: field_simps)
    from a b show ?thesis unfolding fl p1 p2 by simp
  qed
qed

lemma round_half_even_error: "\<bar>of_int (round_half_even y) - y\<bar> \<le> 1 / 2"
proof -
  have "of_int \<lfloor>y\<rfloor> \<le> y" and "y < of_int \<lfloor>y\<rfloor> + 1" by linarith+
  then show ?thesis
    by (auto simp add: round_half_even_def Let_def)
qed

lemma quantum_pos: "0 < quantum x"
  by (simp add: quantum_def pow2_pos)

lemma round_double_error: "\<bar>round_double x - x\<bar> \<le> quantum x / 2"
proof (cases "x = 0")
  case True
  then show ?thesis using quantum_pos [of 0] by (simp add: round_double_def)
next
  case False
  let ?q = "quantum x"
  have q: "0 < ?q" by (rule quantum_pos)
  have "round_double x - x = (of_int (round_half_even (x / ?q)) - x / ?q) * ?q"
    using False q by (simp add: round_double_def left_diff_distrib)
  then have "\<bar>round_double x - x\<bar> = \<bar>of_int (round_half_even (x / ?q)) - x / ?q\<bar> * ?q"
    using q by (simp add: abs_mult)
  also have "\<dots> \<le> 1 / 2 * ?q"
    using round_half_even_error [of "x / ?q"] q by (simp only: mult_le_cancel_right_pos)
  finally show ?thesis by simp
qed

text \<open>Some known roundings: one tenth, and ties at the edge of the integers.\<close>

lemma round_double_examples:
  "round_double (1 / 10) = 3602879701896397 / 2 ^ 55"
  "round_double (2 ^ 53 + 1) = 2 ^ 53"
  "round_double (2 ^ 53 + 3) = 2 ^ 53 + 4"
  by code_simp+

section \<open>Heatmap colour\<close>

text \<open>The hue at each rank from 1 to 20, as a fraction over a power of two.\<close>

lemma hue_values_a:
  "getRankColor (Num 1) = Hsl_style 120 70 85 ''#333''"
  "getRankColor (Num 2) = Hsl_style (7999815127566013 / 2 ^ 46) 70 85 ''#333''"
  "getRankColor (Num 3) = Hsl_style (7555380953812345 / 2 ^ 46) 70 85 ''#333''"
  "getRankColor (Num 4) = Hsl_style (3555473390029339 / 2 ^ 45) 70 85 ''#333''"
  "getRankColor (Num 5) = Hsl_style (3333256303152505 / 2 ^ 45) 70 85 ''#333''"
  by code_simp+

lemma hue_values_b:
  "getRankColor (Num 6) = Hsl_style (6222078432551343 / 2 ^ 46) 70 85 ''#333''"
  "getRankColor (Num 7) = Hsl_style (1444411064699419 / 2 ^ 44) 70 85 ''#333''"
  "getRankColor (Num 8) = Hsl_style (666651260630501 / 2 ^ 43) 70 85 ''#333''"
  "getRankColor (Num 9) = Hsl_style (4888775911290341 / 2 ^ 46) 70 85 ''#333''"
  "getRankColor (Num 10) = Hsl_style (8888683475073347 / 2 ^ 47) 70 85 ''#333''"
  by code_simp+

lemma hue_values_c:
  "getRankColor (Num 11) = Hsl_style (1999953781891503 / 2 ^ 45) 70 85 ''#333''"
  "getRankColor (Num 12) = Hsl_style (3555473390029339 / 2 ^ 46) 70 85 ''#333''"
  "getRankColor (Num 13) = Hsl_style (388879902034459 / 2 ^ 43) 70 85 ''#333''"
  "getRankColor (Num 14) = Hsl_style (666651260630501 / 2 ^ 44) 70 85 ''#333''"
  "getRankColor (Num 15) = Hsl_style (2222170868768337 / 2 ^ 46) 70 85 ''#333''"
  by code_simp+

lemma hue_values_d:
  "getRankColor (Num 16) = Hsl_style (1777736695014669 / 2 ^ 46) 70 85 ''#333''"
  "getRankColor (Num 17) = Hsl_style (666651260630501 / 2 ^ 45) 70 85 ''#333''"
  "getRankColor (Num 18) = Hsl_style (888868347507335 / 2 ^ 46) 70 85 ''#333''"
  "getRankColor (Num 19) = Hsl_style (444434173753667 / 2 ^ 46) 70 85 ''#333''"
  "getRankColor (Num 20) = Hsl_style 0 70 85 ''#333''"
  by code_simp+

lemmas hue_values = hue_values_a hue_values_b hue_values_c hue_values_d

text \<open>
  These are the doubles nearest to the decimal numerals by which they are printed,
  120, 113.6842105263158, 107.36842105263158, 101.05263157894737, 94.73684210526315,
  88.42105263157895, 82.10526315789474, 75.78947368421052, 69.47368421052632,
  63.1578947368421, 56.84210526315789, 50.526315789473685, 44.21052631578948,
  37.89473684210526, 31.578947368421055, 25.263157894736835, 18.94736842105263,
  12.631578947368425, 6.315789473684205, 0.
\<close>

lemma hue_decimals_a:
  "round_double (1136842105263158 / 10 ^ 13) = 7999815127566013 / 2 ^ 46"
  "round_double (10736842105263158 / 10 ^ 14) = 7555380953812345 / 2 ^ 46"
  "round_double (10105263157894737 / 10 ^ 14) = 3555473390029339 / 2 ^ 45"
  "round_double (9473684210526315 / 10 ^ 14) = 3333256303152505 / 2 ^ 45"
  "round_double (8842105263157895 / 10 ^ 14) = 6222078432551343 / 2 ^ 46"
  "round_double (8210526315789474 / 10 ^ 14) = 1444411064699419 / 2 ^ 44"
  "round_double (7578947368421052 / 10 ^ 14) = 666651260630501 / 2 ^ 43"
  "round_double (6947368421052632 / 10 ^ 14) = 4888775911290341 / 2 ^ 46"
  "round_double (631578947368421 / 10 ^ 13) = 8888683475073347 / 2 ^ 47"
  by code_simp+

lemma hue_decimals_b:
  "round_double (5684210526315789 / 10 ^ 14) = 1999953781891503 / 2 ^ 45"
  "round_double (50526315789473685 / 10 ^ 15) = 3555473390029339 / 2 ^ 46"
  "round_double (4421052631578948 / 10 ^ 14) = 388879902034459 / 2 ^ 43"
  "round_double (3789473684210526 / 10 ^ 14) = 666651260630501 / 2 ^ 44"
  "round_double (31578947368421055 / 10 ^ 15) = 2222170868768337 / 2 ^ 46"
  "round_double (25263157894736835 / 10 ^ 15) = 1777736695014669 / 2 ^ 46"
  "round_double (1894736842105263 / 10 ^ 14) = 666651260630501 / 2 ^ 45"
  "round_double (12631578947368425 / 10 ^ 15) = 888868347507335 / 2 ^ 46"
  "round_double (6315789473684205 / 10 ^ 15) = 444434173753667 / 2 ^ 46"
  by code_simp+

lemma upto_1_20:
  "[1..20] = [1, 2, 3, 4, 5, 6, 7, 8, 9, 10, 11, 12, 13, 14, 15, 16, 17, 18, 19, 20::int]"
  by code_simp

lemma hue_errors:
  "list_all (\<lambda>n. \<bar>style_hue (getRankColor (Num (of_int n)))
                    - (120 - (of_int n - 1) * (120 / 19))\<bar> \<le> 1 / 2 ^ 46) [1..20]"
  unfolding upto_1_20 by (simp add: hue_values)

text \<open>
  Claim C5, as amended. \<open>getRankColor\<close> gives no colour for \<open>null\<close>, for \<open>undefined\<close> and
  for every number outside 1..20. For a number inside it gives saturation 70, lightness 85
  and the hue obtained by evaluating 120 - (rank - 1) * (120 / 19) in double-precision
  arithmetic, each operation rounded to the nearest double. At every integer rank from 1
  to 20 this hue is within \<open>2^(-46)\<close> of the exact value of the formula; it is exactly 120
  at rank 1 and exactly 0 at rank 20. The ranks 0 and 21 have no colour.
\<close>

theorem getRankColor_domain:
  "getRankColor (Num r) =
     (if 1 \<le> r \<and> r \<le> 20
      then Hsl_style (dsub 120 (dmul (dsub r 1) (ddiv 120 19))) 70 85 ''#333''
      else No_style)
   \<and> getRankColor Null = No_style
   \<and> getRankColor Undefined = No_style
   \<and> getRankColor (Num 1) = Hsl_style 120 70 85 ''#333''
   \<and> getRankColor (Num 20) = Hsl_style 0 70 85 ''#333''
   \<and> getRankColor (Num 0) = No_style
   \<and> getRankColor (Num 21) = No_style
   \<and> (n \<in> {1..20} \<longrightarrow>
        \<bar>style_hue (getRankColor (Num (of_int n))) - (120 - (of_int n - 1) * (120 / 19))\<bar>
          \<le> 1 / 2 ^ 46)"
proof (intro conjI impI)
  show "getRankColor (Num r) =
     (if 1 \<le> r \<and> r \<le> 20
      then Hsl_style (dsub 120 (dmul (dsub r 1) (ddiv 120 19))) 70 85 ''#333''
      else No_style)"
    by (simp add: getRankColor_def js_lt_def js_gt_def to_number_def)
  show "getRankColor Null = No_style" by (simp add: getRankColor_def)
  show "getRankColor Undefined = No_style" by (simp add: getRankColor_def)
  show "getRankColor (Num 1) = Hsl_style 120 70 85 ''#333''" by (rule hue_values)
  show "getRankColor (Num 20) = Hsl_style 0 70 85 ''#333''" by (rule hue_values)
  show "getRankColor (Num 0) = No_style"
    by (simp add: getRankColor_def js_lt_def js_gt_def to_number_def)
  show "getRankColor (Num 21) = No_style"
    by (simp add: getRankColor_def js_lt_def js_gt_def to_number_def)
next
  assume "n \<in> {1..20}"
  then have "n \<in> set [1..20]" by simp
  with hue_errors show
    "\<bar>style_hue (getRankColor (Num (of_int n))) - (120 - (of_int n - 1) * (120 / 19))\<bar>
          \<le> 1 / 2 ^ 46"
    unfolding list_all_iff by blast
qed

theorem getRankColor_domain_witness:
  "\<bar>style_hue (getRankColor (Num 2)) - 2160 / 19\<bar> \<le> 1 / 2 ^ 46"
proof -
  have "(2::int) \<in> {1..20}" by simp
  with getRankColor_domain [of 2 2]
  have "\<bar>style_hue (getRankColor (Num (of_int 2))) - (120 - (of_int 2 - 1) * (120 / 19))\<bar>
      \<le> 1 / 2 ^ 46"
    by blast
  then show ?thesis by simp
qed

text \<open>
  The claim as first stated gives the hue as the exact value of the formula. At rank 2
  that value is 2160 / 19, which is no double; the function returns the double
  7999815127566013 / \<open>2^46\<close>, printed as 113.6842105263158.
\<close>

theorem exact_hue_counterexample:
  "getRankColor (Num 2) = Hsl_style (7999815127566013 / 2 ^ 46) 70 85 ''#333''
   \<and> (7999815127566013 / 2 ^ 46 :: rat) \<noteq> 120 - (2 - 1) * (120 / 19)"
  by (simp add: hue_values)

section \<open>The comparator as a signed comparison of keys\<close>

lemma stat_val_defined: "stat_val a k \<noteq> Undefined"
  by (simp add: stat_val_def)

lemma comparison_num_cmp3:
  "a \<noteq> Undefined \<Longrightarrow> b \<noteq> Undefined \<Longrightarrow> comparison_num a b = cmp3 (num_of a) (num_of b)"
  by (cases a; cases b)
     (simp_all add: comparison_num_def cmp3_def num_of_def js_gt_def js_lt_def to_number_def)

lemma comparison_str_cmp3: "comparison_str s t = cmp3 s t"
  by (simp add: comparison_str_def cmp3_def)

lemma comparator_numeric:
  assumes "k \<notin> set [''name'', ''team'', ''availability'', ''positions'']"
  shows "comparator k d a b = sign_of k d * cmp3 (num_key k a) (num_key k b)"
proof (cases "k = ''cat_coverage_rank''")
  case True
  then show ?thesis
    by (simp add: comparator_def coverage_val_def comparison_num_cmp3 num_key_def sign_of_def
        inverseSortStats_def num_of_def to_number_def)
next
  case False
  with assms show ?thesis
    by (simp add: comparator_def comparison_num_cmp3 stat_val_defined num_key_def sign_of_def
        inverseSortStats_def Let_def)
qed

lemma comparator_string:
  assumes "k \<in> set [''name'', ''team'', ''availability'', ''positions'']"
  shows "comparator k d a b = sign_of k d * cmp3 (string_val a k) (string_val b k)"
  using assms
  by (auto simp add: comparator_def comparison_str_cmp3 sign_of_def inverseSortStats_def)

lemma sign_of_cases: "sign_of k d = 1 \<or> sign_of k d = - 1"
  by (simp add: sign_of_def)

lemma cmp3_zero_iff: "cmp3 x y = 0 \<longleftrightarrow> x = y"
  by (auto simp add: cmp3_def)

lemma comparator_zero_trans:
  assumes "comparator k d z x = 0" and "comparator k d z y = 0"
  shows "comparator k d x y = 0"
proof (cases "k \<in> set [''name'', ''team'', ''availability'', ''positions'']")
  case True
  from assms show ?thesis
    using sign_of_cases [of k d]
    unfolding comparator_string [OF True] by (auto simp add: cmp3_zero_iff)
next
  case False
  from assms show ?thesis
    using sign_of_cases [of k d]
    unfolding comparator_numeric [OF False] by (auto simp add: cmp3_zero_iff)
qed

lemma insert_by_filter:
  assumes "\<And>y. y \<in> set ys \<Longrightarrow> P x \<Longrightarrow> P y \<Longrightarrow> cmp x y \<le> 0"
  shows "filter P (insert_by cmp x ys) = filter P (x # ys)"
  using assms
proof (induction ys)
  case Nil
  then show ?case by simp
next
  case (Cons y ys)
  show ?case
  proof (cases "cmp x y \<le> 0")
    case True
    then show ?thesis by simp
  next
    case False
    have ih: "filter P (insert_by cmp x ys) = filter P (x # ys)"
      using Cons.IH Cons.prems by simp
    have "\<not> (P x \<and> P y)"
      using Cons.prems [of y] False by auto
    with False ih show ?thesis by auto
  qed
qed

lemma set_insert_by: "set (insert_by cmp x ys) = insert x (set ys)"
  by (induction ys) auto

lemma set_js_sort: "set (js_sort cmp xs) = set xs"
  by (induction xs) (simp_all add: js_sort_def set_insert_by)

lemma mset_insert_by: "mset (insert_by cmp x ys) = add_mset x (mset ys)"
  by (induction ys) auto

lemma mset_js_sort: "mset (js_sort cmp xs) = mset xs"
  by (induction xs) (simp_all add: js_sort_def mset_insert_by)

lemma js_sort_filter:
  assumes "\<And>x y. P x \<Longrightarrow> P y \<Longrightarrow> cmp x y \<le> 0"
  shows "filter P (js_sort cmp xs) = filter P xs"
proof (induction xs)
  case Nil
  then show ?case by (simp add: js_sort_def)
next
  case (Cons x xs)
  have "filter P (js_sort cmp (x # xs)) = filter P (insert_by cmp x (js_sort cmp xs))"
    by (simp add: js_sort_def)
  also have "\<dots> = filter P (x # js_sort cmp xs)"
    by (rule insert_by_filter) (rule assms)
  finally show ?case using Cons.IH by simp
qed

lemma js_sort_all_ties:
  assumes "\<And>x y. x \<in> set xs \<Longrightarrow> y \<in> set xs \<Longrightarrow> cmp x y \<le> 0"
  shows "js_sort cmp xs = xs"
  using assms
proof (induction xs)
  case Nil
  then show ?case by (simp add: js_sort_def)
next
  case (Cons x xs)
  have "js_sort cmp xs = xs" using Cons by simp
  then have "js_sort cmp (x # xs) = insert_by cmp x xs" by (simp add: js_sort_def)
  also have "\<dots> = x # xs"
    using Cons.prems [of x] by (cases xs) simp_all
  finally show ?case .
qed

lemma cmp3_antisym: "cmp3 y x = - cmp3 x y"
  by (auto simp add: cmp3_def)

lemma cmp3_range: "cmp3 x y \<in> {- 1, 0, 1}"
  by (simp add: cmp3_def)

lemma cmp3_le_trans: "cmp3 x y \<le> 0 \<Longrightarrow> cmp3 y z \<le> 0 \<Longrightarrow> cmp3 x z \<le> 0"
  by (auto simp add: cmp3_def split: if_splits)

lemma cmp3_ge_trans: "0 \<le> cmp3 x y \<Longrightarrow> 0 \<le> cmp3 y z \<Longrightarrow> 0 \<le> cmp3 x z"
  by (auto simp add: cmp3_def split: if_splits)

lemma comparator_range: "comparator k d a b \<in> {- 1, 0, 1}"
proof (cases "k \<in> set [''name'', ''team'', ''availability'', ''positions'']")
  case True
  show ?thesis
    using sign_of_cases [of k d] cmp3_range [of "string_val a k" "string_val b k"]
    unfolding comparator_string [OF True] by auto
next
  case False
  show ?thesis
    using sign_of_cases [of k d] cmp3_range [of "num_key k a" "num_key k b"]
    unfolding comparator_numeric [OF False] by auto
qed

lemma comparator_antisym: "comparator k d b a = - comparator k d a b"
proof (cases "k \<in> set [''name'', ''team'', ''availability'', ''positions'']")
  case True
  show ?thesis
    unfolding comparator_string [OF True]
    by (simp add: cmp3_antisym [of "string_val b k" "string_val a k"])
next
  case False
  show ?thesis
    unfolding comparator_numeric [OF False]
    by (simp add: cmp3_antisym [of "num_key k b" "num_key k a"])
qed

lemma comparator_le_trans:
  assumes "comparator k d a b \<le> 0" and "comparator k d b c \<le> 0"
  shows "comparator k d a c \<le> 0"
proof (cases "k \<in> set [''name'', ''team'', ''availability'', ''positions'']")
  case True
  from assms show ?thesis
    using sign_of_cases [of k d]
      cmp3_le_trans [of "string_val a k" "string_val b k" "string_val c k"]
      cmp3_ge_trans [of "string_val a k" "string_val b k" "string_val c k"]
    unfolding comparator_string [OF True] by auto
next
  case False
  from assms show ?thesis
    using sign_of_cases [of k d]
      cmp3_le_trans [of "num_key k a" "num_key k b" "num_key k c"]
      cmp3_ge_trans [of "num_key k a" "num_key k b" "num_key k c"]
    unfolding comparator_numeric [OF False] by auto
qed

lemma sorted_insert_by:
  assumes tot: "\<And>x y. cmp y x = - cmp x y"
    and tr: "\<And>x y z. cmp x y \<le> 0 \<Longrightarrow> cmp y z \<le> 0 \<Longrightarrow> cmp x z \<le> (0::int)"
    and "sorted_wrt (\<lambda>a b. cmp a b \<le> 0) ys"
  shows "sorted_wrt (\<lambda>a b. cmp a b \<le> 0) (insert_by cmp x ys)"
  using assms(3)
proof (induction ys)
  case Nil
  then show ?case by simp
next
  case (Cons y ys)
  show ?case
  proof (cases "cmp x y \<le> 0")
    case True
    with Cons.prems tr show ?thesis by auto
  next
    case False
    then have "cmp y x \<le> 0" using tot [of x y] by simp
    with False Cons show ?thesis by (auto simp add: set_insert_by)
  qed
qed

lemma sorted_js_sort:
  "sorted_wrt (\<lambda>a b. comparator k d a b \<le> 0) (js_sort (comparator k d) xs)"
proof (induction xs)
  case Nil
  then show ?case by (simp add: js_sort_def)
next
  case (Cons x xs)
  have "sorted_wrt (\<lambda>a b. comparator k d a b \<le> 0)
          (insert_by (comparator k d) x (js_sort (comparator k d) xs))"
    by (rule sorted_insert_by [OF comparator_antisym comparator_le_trans Cons.IH])
  then show ?case by (simp add: js_sort_def)
qed

text \<open>
  The model of the built-in sort is determined by what the language requires of it: for
  this comparator, a sorted and stable rearrangement of the array is the one \<open>js_sort\<close>
  computes.
\<close>

lemma comparator_refl: "comparator k d a a = 0"
  using comparator_antisym [of k d a a] by simp

lemma stable_sorted_unique:
  assumes refl: "\<And>x. cmp x x = (0::int)"
    and anti: "\<And>x y. cmp y x = - cmp x y"
    and "mset ys = mset zs"
    and "sorted_wrt (\<lambda>a b. cmp a b \<le> 0) ys"
    and "sorted_wrt (\<lambda>a b. cmp a b \<le> 0) zs"
    and "\<And>x. filter (\<lambda>y. cmp x y = 0) ys = filter (\<lambda>y. cmp x y = 0) zs"
  shows "ys = zs"
  using assms(3-6)
proof (induction ys arbitrary: zs)
  case Nil
  then show ?case by simp
next
  case (Cons y ys)
  from Cons.prems(1) obtain z zs' where zs: "zs = z # zs'"
    by (cases zs) auto
  have sets: "set (y # ys) = set zs"
    using Cons.prems(1) by (metis mset_eq_setD)
  have fy: "filter (\<lambda>u. cmp y u = 0) zs = y # filter (\<lambda>u. cmp y u = 0) ys"
    using Cons.prems(4) [of y] refl [of y] by simp
  have "cmp y z \<le> 0"
  proof (cases "z = y")
    case True
    then show ?thesis by (simp add: refl)
  next
    case False
    with sets zs have "z \<in> set ys" by auto
    with Cons.prems(2) show ?thesis by auto
  qed
  moreover have "cmp z y \<le> 0"
  proof (cases "z = y")
    case True
    then show ?thesis by (simp add: refl)
  next
    case False
    with sets zs have "y \<in> set zs'" by auto
    with Cons.prems(3) zs show ?thesis by auto
  qed
  ultimately have "cmp y z = 0"
    using anti [of y z] by simp
  with fy zs have yz: "z = y" by simp
  have "ys = zs'"
  proof (rule Cons.IH)
    show "mset ys = mset zs'" using Cons.prems(1) zs yz by simp
    show "sorted_wrt (\<lambda>a b. cmp a b \<le> 0) ys" using Cons.prems(2) by simp
    show "sorted_wrt (\<lambda>a b. cmp a b \<le> 0) zs'" using Cons.prems(3) zs by simp
    show "filter (\<lambda>u. cmp x u = 0) ys = filter (\<lambda>u. cmp x u = 0) zs'" for x
      using Cons.prems(4) [of x] zs yz by (simp split: if_splits)
  qed
  with zs yz show ?case by simp
qed

lemma js_sort_unique:
  assumes "mset ys = mset xs"
    and "sorted_wrt (\<lambda>a b. comparator k d a b \<le> 0) ys"
    and "\<And>x. filter (\<lambda>y. comparator k d x y = 0) ys = filter (\<lambda>y. comparator k d x y = 0) xs"
  shows "ys = js_sort (comparator k d) xs"
proof (rule stable_sorted_unique [where cmp = "comparator k d"])
  show "comparator k d x x = 0" for x by (rule comparator_refl)
  show "comparator k d y x = - comparator k d x y" for x y by (rule comparator_antisym)
  show "mset ys = mset (js_sort (comparator k d) xs)"
    using assms(1) by (simp add: mset_js_sort)
  show "sorted_wrt (\<lambda>a b. comparator k d a b \<le> 0) ys" by (rule assms(2))
  show "sorted_wrt (\<lambda>a b. comparator k d a b \<le> 0) (js_sort (comparator k d) xs)"
    by (rule sorted_js_sort)
  show "filter (\<lambda>y. comparator k d x y = 0) ys
      = filter (\<lambda>y. comparator k d x y = 0) (js_sort (comparator k d) xs)" for x
  proof -
    have "filter (\<lambda>y. comparator k d x y = 0) (js_sort (comparator k d) xs)
        = filter (\<lambda>y. comparator k d x y = 0) xs"
    proof (rule js_sort_filter)
      fix u v
      assume "comparator k d x u = 0" and "comparator k d x v = 0"
      then have "comparator k d u v = 0" by (rule comparator_zero_trans)
      then show "comparator k d u v \<le> 0" by simp
    qed
    with assms(3) [of x] show ?thesis by simp
  qed
qed

section \<open>Stability\<close>

text \<open>
  Claim C8. The sort is stable under every sort key and direction: for any row, the rows
  that compare equal to it occur in the sorted array in the order in which they occurred
  in the input.
\<close>

theorem js_sort_stable:
  "filter (\<lambda>y. comparator k d x y = 0) (js_sort (comparator k d) xs)
     = filter (\<lambda>y. comparator k d x y = 0) xs"
proof (rule js_sort_filter)
  fix u v
  assume "comparator k d x u = 0" and "comparator k d x v = 0"
  then have "comparator k d u v = 0" by (rule comparator_zero_trans)
  then show "comparator k d u v \<le> 0" by simp
qed

section \<open>Sentinel defaults in the comparator\<close>

text \<open>
  Claim C3, as amended. The comparator is defined on every pair of rows and every sort
  key and direction, and its result is one of -1, 0, 1: each value it reads is replaced
  by a default when absent, and no operation in it can throw. A row without
  \<open>cat_coverage_rank\<close> is compared as 999, so in ascending order it comes after a row
  whose rank lies strictly between 0 and 999. A row without an entry for a numeric key in
  \<open>weekly_projections\<close> is compared as -1; against a row whose value is greater than -1 it
  comes last in descending and first in ascending order for every statistic key except
  gaa, and, because the comparison for gaa is inverted, first in descending and last in
  ascending order for gaa.
\<close>

theorem comparator_sentinels:
  "(cat_coverage_rank a = Undefined \<longrightarrow> coverage_val a = Num 999)
   \<and> (weekly_projections a k = None \<longrightarrow> stat_val a k = Num (- 1))
   \<and> comparator k d a b \<in> {- 1, 0, 1}
   \<and> (cat_coverage_rank a = Undefined \<and> cat_coverage_rank b = Num r \<and> 0 < r \<and> r < 999
      \<longrightarrow> comparator ''cat_coverage_rank'' Asc a b = 1)
   \<and> (k \<notin> {''name'', ''team'', ''availability'', ''positions'', ''cat_coverage_rank'', ''gaa''}
        \<and> weekly_projections a k = None \<and> weekly_projections b k = Some (Num v) \<and> - 1 < v
      \<longrightarrow> comparator k Desc a b = 1 \<and> comparator k Asc a b = - 1)
   \<and> (weekly_projections a ''gaa'' = None \<and> weekly_projections b ''gaa'' = Some (Num v) \<and> - 1 < v
      \<longrightarrow> comparator ''gaa'' Desc a b = - 1 \<and> comparator ''gaa'' Asc a b = 1)"
proof (intro conjI impI)
  show "comparator k d a b \<in> {- 1, 0, 1}" by (rule comparator_range)
qed (auto simp add: comparator_def coverage_val_def stat_val_def js_get_def or_default_def
      inverseSortStats_def comparison_num_def js_gt_def js_lt_def to_number_def)

theorem comparator_sentinels_witness:
  "comparator ''cat_coverage_rank'' Asc skater_Z (assign_rank skater_B) = 1
   \<and> comparator ''pts'' Desc skater_Z skater_B = 1
   \<and> comparator ''pts'' Asc skater_Z skater_B = - 1
   \<and> comparator ''gaa'' Desc skater_Z skater_B = - 1
   \<and> comparator ''gaa'' Asc skater_Z skater_B = 1"
  using comparator_sentinels [of skater_Z "''pts''" Asc "assign_rank skater_B" 5 6]
    comparator_sentinels [of skater_Z "''pts''" Asc skater_B 5 6]
    comparator_sentinels [of skater_Z "''pts''" Asc skater_B 5 2]
  by (simp add: assign_rank_def totalRank_def sum_ranks_sum_list skater_ranksToSum_def
      js_get_def or_default_def skater_Z_def skater_B_def blank_player_def)

text \<open>
  The claim as first stated (a missing statistic sorts last in descending order and first
  in ascending order, for every sort state) fails for the key gaa: the row without a gaa
  entry is placed before a row with gaa 2 when descending and after it when ascending.
\<close>

theorem missing_gaa_counterexample:
  "weekly_projections skater_Z ''gaa'' = None
   \<and> weekly_projections skater_B ''gaa'' = Some (Num 2)
   \<and> comparator ''gaa'' Desc skater_Z skater_B = - 1
   \<and> comparator ''gaa'' Asc skater_Z skater_B = 1"
  by (simp add: comparator_def stat_val_def js_get_def inverseSortStats_def
      comparison_num_def js_gt_def js_lt_def to_number_def
      skater_Z_def skater_B_def blank_player_def)

section \<open>The inverse statistic\<close>

text \<open>
  Claim C7. For the key gaa the comparator is the negation of the ordinary numeric
  comparison under the same direction, so the row with the lower raw GAA is placed where
  the row with the higher value is placed for another statistic: first when descending,
  last when ascending. No other numeric key is inverted: every other statistic key, and
  cat_coverage_rank, use the ordinary comparison.
\<close>

theorem gaa_inverted:
  "comparator ''gaa'' d a b = - directed_comparison d (stat_val a ''gaa'') (stat_val b ''gaa'')
   \<and> (k \<notin> {''name'', ''team'', ''availability'', ''positions''}
        \<and> k \<noteq> ''cat_coverage_rank'' \<and> k \<noteq> ''gaa''
      \<longrightarrow> comparator k d a b = directed_comparison d (stat_val a k) (stat_val b k))
   \<and> comparator ''cat_coverage_rank'' d a b = directed_comparison d (coverage_val a) (coverage_val b)
   \<and> (js_lt (stat_val a ''gaa'') (stat_val b ''gaa'')
      \<longrightarrow> comparator ''gaa'' Desc a b = - 1 \<and> comparator ''gaa'' Asc a b = 1)"
  by (auto simp add: comparator_def directed_comparison_def inverseSortStats_def
      comparison_num_def js_gt_def js_lt_def split: option.splits)

theorem gaa_inverted_witness:
  "comparator ''w'' Desc goalie_example goalie_two = - 1
   \<and> comparator ''gaa'' Desc goalie_example goalie_two = - 1
   \<and> comparator ''gaa'' Asc goalie_example goalie_two = 1"
  using gaa_inverted [of Desc goalie_example goalie_two "''w''"]
    gaa_inverted [of Asc goalie_example goalie_two "''w''"]
  by (simp add: directed_comparison_def comparison_num_def js_gt_def js_lt_def to_number_def
      stat_val_def js_get_def goalie_example_def goalie_two_def blank_player_def)

section \<open>A coverage rank of zero\<close>



section \<open>The Games column\<close>

text \<open>
  Claim C10. When no player has a \<open>games_this_week\<close> entry in \<open>weekly_projections\<close>,
  sorting by the key games_this_week leaves the array in its order, whatever the
  direction and whatever the top-level \<open>games_this_week\<close> fields hold: every row is
  compared as -1, every comparison is a tie, and the stable sort returns its input. The
  table is then rendered in that order.
\<close>

theorem games_sort_identity:
  assumes "\<forall>p \<in> set xs. weekly_projections p ''games_this_week'' = None"
  shows "(\<forall>a \<in> set xs. stat_val a ''games_this_week'' = Num (- 1))
    \<and> (\<forall>a \<in> set xs. \<forall>b \<in> set xs. comparator ''games_this_week'' d a b = 0)
    \<and> js_sort (comparator ''games_this_week'' d) xs = xs
    \<and> (allAvailablePlayersData pg = xs \<longrightarrow>
        allAvailablePlayersData
          (sortAndRerenderTable pg \<lparr>key = ''games_this_week'', direction = d\<rparr>)
          = map assign_rank xs
        \<and> availableTable
          (sortAndRerenderTable pg \<lparr>key = ''games_this_week'', direction = d\<rparr>)
          = (if xs = [] then No_players_found else Rows (map render_row xs)))"
proof -
  have v: "\<forall>a \<in> set xs. stat_val a ''games_this_week'' = Num (- 1)"
    using assms by (simp add: stat_val_def js_get_def)
  have tie: "\<forall>a \<in> set xs. \<forall>b \<in> set xs. comparator ''games_this_week'' d a b = 0"
    using v by (simp add: comparator_def inverseSortStats_def comparison_num_def
        js_gt_def js_lt_def to_number_def)
  have srt: "js_sort (comparator ''games_this_week'' d) xs = xs"
    by (rule js_sort_all_ties) (simp add: tie)
  from v tie srt show ?thesis
    by (simp add: sortAndRerenderTable_def populateTableBody_def)
qed

theorem games_sort_identity_witness:
  "map games_this_week [skater_A, skater_B, skater_Z] = [Num 4, Num 2, Num 3]
   \<and> js_sort (comparator ''games_this_week'' Desc) [skater_A, skater_B, skater_Z]
       = [skater_A, skater_B, skater_Z]"
proof -
  have h: "\<forall>p \<in> set [skater_A, skater_B, skater_Z]. weekly_projections p ''games_this_week'' = None"
    by (simp add: skater_A_def skater_B_def skater_Z_def blank_player_def)
  have g: "map games_this_week [skater_A, skater_B, skater_Z] = [Num 4, Num 2, Num 3]"
    by (simp add: skater_A_def skater_B_def skater_Z_def blank_player_def)
  from games_sort_identity [OF h, of Desc initial_page] g show ?thesis by simp
qed

section \<open>The first sort after a fetch\<close>

lemma totalRank_assign_rank: "totalRank (assign_rank p) = totalRank p"
  by (simp add: totalRank_def assign_rank_def split: option.split)

text \<open>
  After a render every stored rank is the one the projections give, so each later sort
  reads current ranks.
\<close>

lemma ranks_current_after_render:
  "\<forall>p \<in> set (allAvailablePlayersData (sortAndRerenderTable pg cfg)).
     cat_coverage_rank p = Num (totalRank p)"
proof -
  have "cat_coverage_rank (assign_rank q) = Num (totalRank (assign_rank q))" for q
    unfolding totalRank_assign_rank by (simp add: assign_rank_def)
  then show ?thesis
    by (auto simp add: sortAndRerenderTable_def populateTableBody_def Let_def)
qed

text \<open>Freshly fetched rows carry no rank yet, and the initial sort leaves them in place.\<close>

lemma fresh_data_first_sort:
  assumes "\<forall>p \<in> set xs. cat_coverage_rank p = Undefined"
  shows "js_sort (comparator ''cat_coverage_rank'' d) xs = xs"
proof (rule js_sort_all_ties)
  fix x y
  assume "x \<in> set xs" and "y \<in> set xs"
  with assms have "coverage_val x = Num 999" and "coverage_val y = Num 999"
    by (simp_all add: coverage_val_def or_default_def)
  then show "comparator ''cat_coverage_rank'' d x y \<le> 0"
    by (simp add: comparator_def inverseSortStats_def comparison_num_def js_gt_def js_lt_def
        to_number_def)
qed

text \<open>
  Claim C2. The specification requires the coverage rank to be recomputed before the rows
  are sorted, also for the first sort after a fetch. In the code \<open>sortAndRerenderTable\<close>
  sorts first and \<open>populateTableBody\<close> assigns the ranks afterwards, and the table is
  created over an empty array. For two fetched players with coverage ranks 20 and 5, in
  that order, the initial sort by cat_coverage_rank ascending compares both as 999 and the
  table shows 20 above 5; compared on their computed ranks the first row belongs after the
  second.
\<close>

theorem first_sort_reads_uncomputed_ranks:
  "currentSort (fetchAndDisplayData initial_page [skater_A, skater_B])
     = \<lparr>key = ''cat_coverage_rank'', direction = Asc\<rparr>
   \<and> availableTable (fetchAndDisplayData initial_page [skater_A, skater_B])
     = Rows [render_row skater_A, render_row skater_B]
   \<and> cell_total_rank (render_row skater_A) = 20
   \<and> cell_total_rank (render_row skater_B) = 5
   \<and> comparator ''cat_coverage_rank'' Asc skater_A skater_B = 0
   \<and> comparator ''cat_coverage_rank'' Asc (assign_rank skater_A) (assign_rank skater_B) = 1"
proof -
  have fresh: "\<forall>p \<in> set [skater_A, skater_B]. cat_coverage_rank p = Undefined"
    by (simp add: skater_A_def skater_B_def blank_player_def)
  have srt: "js_sort (comparator ''cat_coverage_rank'' Asc) [skater_A, skater_B]
      = [skater_A, skater_B]"
    by (rule fresh_data_first_sort [OF fresh])
  have a: "totalRank skater_A = 20"
    by (simp add: totalRank_def sum_ranks_sum_list skater_ranksToSum_def
      js_get_def or_default_def skater_A_def blank_player_def)
  have b: "totalRank skater_B = 5"
    by (simp add: totalRank_def sum_ranks_sum_list skater_ranksToSum_def
      js_get_def or_default_def skater_B_def blank_player_def)
  have c0: "comparator ''cat_coverage_rank'' Asc skater_A skater_B = 0"
    using fresh by (simp add: comparator_def coverage_val_def or_default_def
        inverseSortStats_def comparison_num_def js_gt_def js_lt_def to_number_def)
  have c1: "comparator ''cat_coverage_rank'' Asc (assign_rank skater_A) (assign_rank skater_B) = 1"
    using a b by (simp add: comparator_def coverage_val_def or_default_def assign_rank_def
        inverseSortStats_def comparison_num_def js_gt_def js_lt_def to_number_def)
  have cs: "currentSort (fetchAndDisplayData initial_page [skater_A, skater_B])
     = \<lparr>key = ''cat_coverage_rank'', direction = Asc\<rparr>"
    by (simp add: fetchAndDisplayData_def sortAndRerenderTable_def initial_page_def Let_def
        split: prod.split)
  have tb: "availableTable (fetchAndDisplayData initial_page [skater_A, skater_B])
     = Rows [render_row skater_A, render_row skater_B]"
    using srt
    by (simp add: fetchAndDisplayData_def sortAndRerenderTable_def initial_page_def
        populateTableBody_def Let_def)
  from cs tb a b c0 c1 show ?thesis by (simp add: render_row_def)
qed

section \<open>Back-to-back days\<close>

lemma split_days_nonempty: "split_days acc s \<noteq> []"
  by (induction acc s rule: split_days.induct) simp_all

lemma js_join_Cons: "ys \<noteq> [] \<Longrightarrow> js_join sep (x # ys) = x @ sep @ js_join sep ys"
  by (cases ys) simp_all

lemma join_split_days: "js_join '', '' (split_days acc s) = rev acc @ s"
proof (induction acc s rule: split_days.induct)
  case (1 acc)
  show ?case by simp
next
  case (2 acc c)
  show ?case by simp
next
  case (3 acc c d cs)
  show ?case
  proof (cases "c = CHR '','' \<and> d = CHR '' ''")
    case True
    then have "js_join '', '' (split_days acc (c # d # cs))
        = rev acc @ '', '' @ js_join '', '' (split_days [] cs)"
      by (simp add: js_join_Cons split_days_nonempty)
    with True 3 show ?thesis by simp
  next
    case False
    with 3 show ?thesis by auto
  qed
qed

lemma adjacent_pairs:
  "zip dayOrder (tl dayOrder) =
     [(''Mon'', ''Tue''), (''Tue'', ''Wed''), (''Wed'', ''Thu''), (''Thu'', ''Fri''),
      (''Fri'', ''Sat''), (''Sat'', ''Sun'')]"
  by (simp add: dayOrder_def)

lemma indexOf_dayOrder:
  "indexOf dayOrder ''Mon'' = 0" "indexOf dayOrder ''Tue'' = 1" "indexOf dayOrder ''Wed'' = 2"
  "indexOf dayOrder ''Thu'' = 3" "indexOf dayOrder ''Fri'' = 4" "indexOf dayOrder ''Sat'' = 5"
  "indexOf dayOrder ''Sun'' = 6"
  by (simp_all add: dayOrder_def)

lemma dayOrder_nth:
  "dayOrder ! 0 = ''Mon''" "dayOrder ! 1 = ''Tue''" "dayOrder ! 2 = ''Wed''"
  "dayOrder ! 3 = ''Thu''" "dayOrder ! 4 = ''Fri''" "dayOrder ! 5 = ''Sat''"
  "dayOrder ! 6 = ''Sun''" "dayOrder ! Suc 0 = ''Tue''"
  by (simp_all add: dayOrder_def)

lemma isB2B_days:
  "isB2B days ''Mon'' \<longleftrightarrow> ''Tue'' \<in> set days"
  "isB2B days ''Tue'' \<longleftrightarrow> ''Mon'' \<in> set days \<or> ''Wed'' \<in> set days"
  "isB2B days ''Wed'' \<longleftrightarrow> ''Tue'' \<in> set days \<or> ''Thu'' \<in> set days"
  "isB2B days ''Thu'' \<longleftrightarrow> ''Wed'' \<in> set days \<or> ''Fri'' \<in> set days"
  "isB2B days ''Fri'' \<longleftrightarrow> ''Thu'' \<in> set days \<or> ''Sat'' \<in> set days"
  "isB2B days ''Sat'' \<longleftrightarrow> ''Fri'' \<in> set days \<or> ''Sun'' \<in> set days"
  "isB2B days ''Sun'' \<longleftrightarrow> ''Sat'' \<in> set days"
  unfolding isB2B_def indexOf_dayOrder Let_def
  by (simp_all add: dayOrder_nth)

lemma spec_adjacent_days:
  "spec_adjacent ''Mon'' e \<longleftrightarrow> e = ''Tue''"
  "spec_adjacent ''Tue'' e \<longleftrightarrow> e = ''Mon'' \<or> e = ''Wed''"
  "spec_adjacent ''Wed'' e \<longleftrightarrow> e = ''Tue'' \<or> e = ''Thu''"
  "spec_adjacent ''Thu'' e \<longleftrightarrow> e = ''Wed'' \<or> e = ''Fri''"
  "spec_adjacent ''Fri'' e \<longleftrightarrow> e = ''Thu'' \<or> e = ''Sat''"
  "spec_adjacent ''Sat'' e \<longleftrightarrow> e = ''Fri'' \<or> e = ''Sun''"
  "spec_adjacent ''Sun'' e \<longleftrightarrow> e = ''Sat''"
  unfolding spec_adjacent_def adjacent_pairs
  by auto

lemma spec_emphasized_days:
  "spec_emphasized days ''Mon'' \<longleftrightarrow> ''Tue'' \<in> set days"
  "spec_emphasized days ''Tue'' \<longleftrightarrow> ''Mon'' \<in> set days \<or> ''Wed'' \<in> set days"
  "spec_emphasized days ''Wed'' \<longleftrightarrow> ''Tue'' \<in> set days \<or> ''Thu'' \<in> set days"
  "spec_emphasized days ''Thu'' \<longleftrightarrow> ''Wed'' \<in> set days \<or> ''Fri'' \<in> set days"
  "spec_emphasized days ''Fri'' \<longleftrightarrow> ''Thu'' \<in> set days \<or> ''Sat'' \<in> set days"
  "spec_emphasized days ''Sat'' \<longleftrightarrow> ''Fri'' \<in> set days \<or> ''Sun'' \<in> set days"
  "spec_emphasized days ''Sun'' \<longleftrightarrow> ''Sat'' \<in> set days"
  unfolding spec_emphasized_def list_ex_iff spec_adjacent_days
  by blast+

lemma isB2B_spec:
  assumes "d \<in> set dayOrder"
  shows "isB2B days d = spec_emphasized days d"
proof -
  from assms have "d = ''Mon'' \<or> d = ''Tue'' \<or> d = ''Wed'' \<or> d = ''Thu''
    \<or> d = ''Fri'' \<or> d = ''Sat'' \<or> d = ''Sun''"
    unfolding dayOrder_def by simp
  then show ?thesis
    using isB2B_days [of days] spec_emphasized_days [of days] by blast
qed

lemma not_self_adjacent: "\<not> spec_adjacent d d"
  unfolding spec_adjacent_def adjacent_pairs by simp

lemma format_day_spec:
  assumes "set days \<subseteq> set dayOrder"
  shows "map (format_day days) days
     = map (\<lambda>d. if spec_emphasized days d then ''<b>'' @ d @ ''</b>'' else d) days"
proof (rule map_cong [OF refl])
  fix d assume "d \<in> set days"
  with assms have "d \<in> set dayOrder" by auto
  then show "format_day days d = (if spec_emphasized days d then ''<b>'' @ d @ ''</b>'' else d)"
    by (simp add: format_day_def isB2B_spec)
qed

lemma formatBackToBackDays_spec:
  assumes "s \<noteq> []" and "set (split_days [] s) \<subseteq> set dayOrder"
  shows "formatBackToBackDays (Some s) =
     js_join '', '' (map (\<lambda>d. if spec_emphasized (split_days [] s) d then ''<b>'' @ d @ ''</b>'' else d)
        (split_days [] s))"
proof (cases "length (split_days [] s) < 2")
  case False
  with assms show ?thesis
    by (simp add: formatBackToBackDays_def Let_def format_day_spec)
next
  case True
  then obtain x where x: "split_days [] s = [x]"
    using split_days_nonempty [of "[]" s]
    by (cases "split_days [] s") (auto simp add: less_Suc_eq_0_disj)
  have "js_join '', '' (split_days [] s) = s"
    using join_split_days [of "[]" s] by simp
  with x have "s = x" by simp
  with x True assms(1) show ?thesis
    by (simp add: formatBackToBackDays_def Let_def spec_emphasized_def not_self_adjacent)
qed

text \<open>
  Claim C6. For a day of the canonical week, \<open>formatBackToBackDays\<close> emphasizes it (wraps
  it in \<open><b>\<close>) exactly when the day just before or just after it in the order Mon, Tue,
  Wed, Thu, Fri, Sat, Sun, without wraparound, is among the input days. So the output for
  a string of canonical days is the days in input order, each emphasized exactly when the
  specification says so. \<open>Sun, Mon\<close> comes back with no emphasis, and \<open>Mon, Tue, Fri\<close>
  with Mon and Tue emphasized and Fri not.
\<close>

theorem formatBackToBackDays_emphasis:
  "(d \<in> set dayOrder \<longrightarrow> isB2B days d = spec_emphasized days d)
   \<and> (s \<noteq> [] \<and> set (split_days [] s) \<subseteq> set dayOrder \<longrightarrow>
        formatBackToBackDays (Some s) =
          js_join '', ''
            (map (\<lambda>d. if spec_emphasized (split_days [] s) d then ''<b>'' @ d @ ''</b>'' else d)
               (split_days [] s)))
   \<and> formatBackToBackDays (Some ''Sun, Mon'') = ''Sun, Mon''
   \<and> formatBackToBackDays (Some ''Mon, Tue, Fri'') = ''<b>Mon</b>, <b>Tue</b>, Fri''"
proof (intro conjI impI)
  assume "d \<in> set dayOrder"
  then show "isB2B days d = spec_emphasized days d" by (rule isB2B_spec)
next
  assume "s \<noteq> [] \<and> set (split_days [] s) \<subseteq> set dayOrder"
  then show "formatBackToBackDays (Some s) =
          js_join '', ''
            (map (\<lambda>d. if spec_emphasized (split_days [] s) d then ''<b>'' @ d @ ''</b>'' else d)
               (split_days [] s))"
    by (simp add: formatBackToBackDays_spec)
next
  show "formatBackToBackDays (Some ''Sun, Mon'') = ''Sun, Mon''"
    by (simp add: formatBackToBackDays_def format_day_def isB2B_def dayOrder_def)
next
  show "formatBackToBackDays (Some ''Mon, Tue, Fri'') = ''<b>Mon</b>, <b>Tue</b>, Fri''"
    by (simp add: formatBackToBackDays_def format_day_def isB2B_def dayOrder_def)
qed

theorem formatBackToBackDays_emphasis_witness:
  "split_days [] ''Sat, Sun, Mon'' = [''Sat'', ''Sun'', ''Mon'']
   \<and> isB2B [''Sat'', ''Sun'', ''Mon''] ''Sun''
   \<and> \<not> isB2B [''Sat'', ''Sun'', ''Mon''] ''Mon''
   \<and> formatBackToBackDays (Some ''Sat, Sun, Mon'') = ''<b>Sat</b>, <b>Sun</b>, Mon''"
proof -
  have sp: "split_days [] ''Sat, Sun, Mon'' = [''Sat'', ''Sun'', ''Mon'']" by simp
  have e1: "spec_emphasized [''Sat'', ''Sun'', ''Mon''] ''Sun''"
    by (simp add: spec_emphasized_def spec_adjacent_def adjacent_pairs)
  have e2: "\<not> spec_emphasized [''Sat'', ''Sun'', ''Mon''] ''Mon''"
    by (simp add: spec_emphasized_def spec_adjacent_def adjacent_pairs)
  have e3: "spec_emphasized [''Sat'', ''Sun'', ''Mon''] ''Sat''"
    by (simp add: spec_emphasized_def spec_adjacent_def adjacent_pairs)
  from formatBackToBackDays_emphasis [of "''Sun''" "[''Sat'', ''Sun'', ''Mon'']" "''Sat, Sun, Mon''"]
    formatBackToBackDays_emphasis [of "''Mon''" "[''Sat'', ''Sun'', ''Mon'']" "''Sat, Sun, Mon''"]
    sp e1 e2 e3
  show ?thesis by (simp add: dayOrder_def)
qed

end
